theory Spec2Isabelle
  imports Main "HOL-Library.Multiset"
begin

section \<open>Data model (src/types.ts, lines 2--47)\<close>

text \<open>
  The page organiser keeps an ordered array of page descriptors (\<open>PageItem\<close>), a bounded
  stack of earlier arrays, and a processing state. Optional fields of the TypeScript
  interfaces (\<open>sourceFileId?\<close>, \<open>originalPageIndex?\<close>) are \<open>option\<close> values, where
  \<open>None\<close> stands for \<open>undefined\<close>; nullable fields (\<open>string | null\<close>) likewise.
\<close>

datatype PageSourceType = Original | Blank | External | Duplicate

record PageItem =
  id' :: string
  type :: PageSourceType
  sourceFileId :: "string option"
  originalPageIndex :: "nat option"
  label :: string

record Side =
  left :: "PageItem option"
  right :: "PageItem option"

record PageMap =
  sheetIndex :: nat
  front :: Side
  back' :: Side

record ProcessingState =
  isProcessing :: bool
  progress :: nat
  error :: "string option"
  resultUrl :: "string option"

datatype Position = Before | After

record InsertConfig =
  count' :: int
  position :: Position
  target :: int

text \<open>A selected file, as far as the handlers look at it: its name and its MIME type.\<close>

record File =
  fileName :: string
  fileType :: string

text \<open>
  The component state of \<open>App\<close> (lines 82--105) that the handlers below read or write.
  The purely visual pieces (active tab, imposition toggle, print configuration) are not
  touched by any of them and are left out.
\<close>

record AppState =
  file' :: "File option"
  pages :: "PageItem list"
  history :: "PageItem list list"
  draggedIndex :: "nat option"
  processState :: ProcessingState
  deleteInput :: string
  insertConfig :: InsertConfig

definition initialProcessState :: ProcessingState where
  "initialProcessState =
     \<lparr>isProcessing = False, progress = 0, error = None, resultUrl = None\<rparr>"

definition initialState :: AppState where
  "initialState =
     \<lparr>file' = None, pages = [], history = [], draggedIndex = None,
      processState = initialProcessState, deleteInput = [],
      insertConfig = \<lparr>count' = 1, position = After, target = 1\<rparr>\<rparr>"

section \<open>History and undo (lines 123--133)\<close>

text \<open>
  \<open>prev.slice(-19)\<close> keeps the last 19 entries (all of them when there are fewer);
  \<open>slice(0, -1)\<close> drops the last entry.
\<close>

definition sliceLast :: "nat \<Rightarrow> 'a list \<Rightarrow> 'a list" where
  "sliceLast k xs = drop (length xs - k) xs"

definition saveToHistory :: "AppState \<Rightarrow> PageItem list \<Rightarrow> AppState" where
  "saveToHistory st newPages =
     st\<lparr>history := sliceLast 19 (history st) @ [pages st], pages := newPages\<rparr>"

definition undo :: "AppState \<Rightarrow> AppState" where
  "undo st =
     (if length (history st) = 0 then st
      else st\<lparr>pages := last (history st), history := butlast (history st)\<rparr>)"

section \<open>Strings: template literals, \<open>split\<close>, \<open>trim\<close>, \<open>parseInt\<close>\<close>

text \<open>
  Strings are lists of 8-bit characters, read as UTF-16 code units below 256. A template
  literal with an embedded non-negative integer renders it in decimal.
\<close>

definition digitChar :: "nat \<Rightarrow> char" where
  "digitChar d = char_of (48 + d)"

fun showNat :: "nat \<Rightarrow> string" where
  "showNat n = (if n < 10 then [digitChar n] else showNat (n div 10) @ [digitChar (n mod 10)])"

declare showNat.simps [simp del]

text \<open>
  \<open>s.split(c)\<close> for a one-character separator: the pieces between the separators, in
  order; always at least one piece (the empty string splits into one empty piece).
\<close>

fun split :: "char \<Rightarrow> string \<Rightarrow> string list" where
  "split c [] = [[]]"
| "split c (x # xs) =
     (if x = c then [] # split c xs
      else (case split c xs of [] \<Rightarrow> [[x]] | p # ps \<Rightarrow> (x # p) # ps))"

text \<open>
  The white space and line terminators of ECMAScript among the code units below 256:
  TAB, LF, VT, FF, CR, SPACE and NBSP.
\<close>

definition isWhiteSpace :: "char \<Rightarrow> bool" where
  "isWhiteSpace c = ((of_char c :: nat) \<in> {9, 10, 11, 12, 13, 32, 160})"

definition trim :: "string \<Rightarrow> string" where
  "trim s = rev (dropWhile isWhiteSpace (rev (dropWhile isWhiteSpace s)))"

definition includes' :: "string \<Rightarrow> char \<Rightarrow> bool" where
  "includes' s c = (c \<in> set s)"

text \<open>
  \<open>parseInt(s)\<close> with no radix argument: skip leading white space, read an optional
  sign, switch to radix 16 after a \<open>0x\<close> or \<open>0X\<close> prefix and to radix 10 otherwise, and
  read the longest run of digits of that radix; everything after it is ignored. With no
  digit at all the result is \<open>NaN\<close>, here \<open>None\<close>. The value is an exact integer (the
  source's doubles agree with it up to \<open>2^53\<close>).
\<close>

definition digitVal :: "char \<Rightarrow> nat option" where
  "digitVal c =
     (let n = (of_char c :: nat) in
      if 48 \<le> n \<and> n \<le> 57 then Some (n - 48)
      else if 97 \<le> n \<and> n \<le> 122 then Some (n - 87)
      else if 65 \<le> n \<and> n \<le> 90 then Some (n - 55)
      else None)"

definition isDigitOf :: "nat \<Rightarrow> char \<Rightarrow> bool" where
  "isDigitOf radix c = (case digitVal c of None \<Rightarrow> False | Some d \<Rightarrow> d < radix)"

definition digitsValue :: "nat \<Rightarrow> string \<Rightarrow> nat" where
  "digitsValue radix ds = foldl (\<lambda>acc c. acc * radix + (case digitVal c of None \<Rightarrow> 0 | Some d \<Rightarrow> d)) 0 ds"

definition parseDigits :: "nat \<Rightarrow> bool \<Rightarrow> string \<Rightarrow> int option" where
  "parseDigits radix neg s =
     (let ds = takeWhile (isDigitOf radix) s in
      if ds = [] then None
      else Some (if neg then - int (digitsValue radix ds) else int (digitsValue radix ds)))"

definition parseUnsigned :: "bool \<Rightarrow> string \<Rightarrow> int option" where
  "parseUnsigned neg s =
     (if take 2 s = ''0x'' \<or> take 2 s = ''0X'' then parseDigits 16 neg (drop 2 s)
      else parseDigits 10 neg s)"

definition parseInt :: "string \<Rightarrow> int option" where
  "parseInt s =
     (case dropWhile isWhiteSpace s of
        [] \<Rightarrow> None
      | c # r \<Rightarrow>
          if c = CHR ''-'' then parseUnsigned True r
          else if c = CHR ''+'' then parseUnsigned False r
          else parseUnsigned False (c # r))"

section \<open>Loading a document (\<open>handleFileChange\<close>, lines 135--156)\<close>

text \<open>
  The PDF library is outside the program: what reading the bytes and
  \<open>PDFDocument.load\<close> do with the selected file is a parameter, either an exception or
  the page count. \<open>rnd i\<close> is the text of the \<open>Math.random()\<close> drawn for page \<open>i\<close>.
\<close>

datatype LoadResult = LoadThrows | PageCount nat

definition initialPages :: "(nat \<Rightarrow> string) \<Rightarrow> nat \<Rightarrow> PageItem list" where
  "initialPages rnd n =
     map (\<lambda>i. \<lparr>id' = ''orig-'' @ showNat i @ ''-'' @ rnd i, type = Original,
               sourceFileId = None, originalPageIndex = Some i,
               label = ''Page '' @ showNat (i + 1)\<rparr>) [0..<n]"

definition loadErrorMessage :: string where
  "loadErrorMessage = ''Failed to load PDF. It might be encrypted or corrupted.''"

definition handleFileChange ::
  "AppState \<Rightarrow> File option \<Rightarrow> LoadResult \<Rightarrow> (nat \<Rightarrow> string) \<Rightarrow> AppState" where
  "handleFileChange st selected loaded rnd =
     (case selected of
        None \<Rightarrow> st
      | Some f \<Rightarrow>
          if fileType f = ''application/pdf'' then
            (case loaded of
               PageCount n \<Rightarrow>
                 st\<lparr>file' := Some f, pages := initialPages rnd n, history := [],
                    processState := initialProcessState\<rparr>
             | LoadThrows \<Rightarrow>
                 st\<lparr>processState := (processState st)\<lparr>error := Some loadErrorMessage\<rparr>\<rparr>)
          else st)"

section \<open>Bulk deletion (\<open>parseDeleteRanges\<close>, \<open>handleBulkDelete\<close>, lines 158--181)\<close>

text \<open>
  A JavaScript \<open>Set\<close> keeps its members in insertion order and ignores a second
  insertion; \<open>Array.from\<close> lists them in that order.
\<close>

definition setAdd :: "int \<Rightarrow> int list \<Rightarrow> int list" where
  "setAdd x s = (if x \<in> set s then s else s @ [x])"

definition addRange :: "int \<Rightarrow> int \<Rightarrow> int list \<Rightarrow> int list" where
  "addRange lo hi s = foldl (\<lambda>acc i. setAdd (i - 1) acc) s [lo..hi]"

definition addPart :: "int list \<Rightarrow> string \<Rightarrow> int list" where
  "addPart indices part =
     (if includes' part (CHR ''-'') then
        (case map parseInt (split (CHR ''-'') part) of
           Some start # Some end' # _ \<Rightarrow> addRange (min start end') (max start end') indices
         | _ \<Rightarrow> indices)
      else
        (case parseInt part of
           Some n \<Rightarrow> setAdd (n - 1) indices
         | None \<Rightarrow> indices))"

definition parseDeleteRanges :: "PageItem list \<Rightarrow> string \<Rightarrow> int list" where
  "parseDeleteRanges ps input =
     filter (\<lambda>i. i \<ge> 0 \<and> i < int (length ps))
       (foldl addPart [] (map trim (split (CHR '','') input)))"

definition filterIndex :: "(nat \<Rightarrow> bool) \<Rightarrow> 'a list \<Rightarrow> 'a list" where
  "filterIndex keep xs = map fst (filter (\<lambda>(x, idx). keep idx) (zip xs [0..<length xs]))"

definition handleBulkDelete :: "AppState \<Rightarrow> AppState" where
  "handleBulkDelete st =
     (let toDelete = parseDeleteRanges (pages st) (deleteInput st) in
      if length toDelete = 0 then st
      else (saveToHistory st (filterIndex (\<lambda>idx. int idx \<notin> set toDelete) (pages st)))
             \<lparr>deleteInput := []\<rparr>)"

section \<open>Inserting blanks (\<open>handleInsertBlank\<close>, lines 183--193, and its inputs, 520--538)\<close>

text \<open>
  \<open>Array.from({ length: n }, f)\<close> builds \<open>f(0), ..., f(n - 1)\<close>; a length that is not
  positive gives the empty array. \<open>now i\<close> is the value of \<open>Date.now()\<close> read while
  blank \<open>i\<close> is built (the clock is read once for every blank).
  \<open>a.splice(start, k, items)\<close> removes \<open>k\<close> elements from position \<open>start\<close> (clamped to
  the length), puts \<open>items\<close> there and returns the removed elements.
\<close>

definition splice' :: "nat \<Rightarrow> nat \<Rightarrow> 'a list \<Rightarrow> 'a list \<Rightarrow> 'a list \<times> 'a list" where
  "splice' start k items xs =
     (take k (drop start xs), take start xs @ items @ drop (start + k) xs)"

definition newBlanks :: "(nat \<Rightarrow> nat) \<Rightarrow> int \<Rightarrow> PageItem list" where
  "newBlanks now n =
     map (\<lambda>i. \<lparr>id' = ''blank-'' @ showNat (now i) @ ''-'' @ showNat i, type = Blank,
               sourceFileId = None, originalPageIndex = None,
               label = ''Blank Page''\<rparr>) [0..<nat n]"

definition targetIdx :: "AppState \<Rightarrow> nat" where
  "targetIdx st =
     nat (max 0 (min (int (length (pages st)))
                     (target (insertConfig st)
                        - (if position (insertConfig st) = Before then 1 else 0))))"

definition handleInsertBlank :: "AppState \<Rightarrow> (nat \<Rightarrow> nat) \<Rightarrow> AppState" where
  "handleInsertBlank st now =
     saveToHistory st
       (snd (splice' (targetIdx st) 0 (newBlanks now (count' (insertConfig st))) (pages st)))"

text \<open>The \<open>onChange\<close> handlers of the two number fields: \<open>parseInt(value) || 1\<close>.\<close>

definition orOne :: "int option \<Rightarrow> int" where
  "orOne v = (case v of None \<Rightarrow> 1 | Some n \<Rightarrow> if n = 0 then 1 else n)"

definition onCountChange :: "AppState \<Rightarrow> string \<Rightarrow> AppState" where
  "onCountChange st v = st\<lparr>insertConfig := (insertConfig st)\<lparr>count' := orOne (parseInt v)\<rparr>\<rparr>"

definition onTargetChange :: "AppState \<Rightarrow> string \<Rightarrow> AppState" where
  "onTargetChange st v = st\<lparr>insertConfig := (insertConfig st)\<lparr>target := orOne (parseInt v)\<rparr>\<rparr>"

definition onPositionClick :: "AppState \<Rightarrow> Position \<Rightarrow> AppState" where
  "onPositionClick st p = st\<lparr>insertConfig := (insertConfig st)\<lparr>position := p\<rparr>\<rparr>"

definition onDeleteInputChange :: "AppState \<Rightarrow> string \<Rightarrow> AppState" where
  "onDeleteInputChange st v = st\<lparr>deleteInput := v\<rparr>"

section \<open>Reordering by drag and drop (lines 221--241) and deleting one page (line 344)\<close>

definition onDragStart :: "AppState \<Rightarrow> nat \<Rightarrow> AppState" where
  "onDragStart st index = st\<lparr>draggedIndex := Some index\<rparr>"

text \<open>
  \<open>const [movedItem] = updatedPages.splice(draggedIndex, 1)\<close> takes the first removed
  element. When \<open>draggedIndex\<close> is not a position of the array nothing is removed,
  \<open>movedItem\<close> is \<open>undefined\<close>, and the second \<open>splice\<close> would put \<open>undefined\<close> into
  the array: that array is no list of page descriptors, and the result is \<open>None\<close>.
\<close>

definition onDrop :: "AppState \<Rightarrow> nat \<Rightarrow> AppState option" where
  "onDrop st targetIndex =
     (case draggedIndex st of
        None \<Rightarrow> Some st
      | Some d \<Rightarrow>
          if d = targetIndex then Some st
          else
            (case splice' d 1 [] (pages st) of
               ([], _) \<Rightarrow> None
             | (movedItem # _, updatedPages) \<Rightarrow>
                 Some ((saveToHistory st (snd (splice' targetIndex 0 [movedItem] updatedPages)))
                         \<lparr>draggedIndex := None\<rparr>)))"

definition onDeleteClick :: "AppState \<Rightarrow> string \<Rightarrow> AppState" where
  "onDeleteClick st pid = saveToHistory st (filter (\<lambda>p. id' p \<noteq> pid) (pages st))"

section \<open>Export (\<open>handleProcess\<close>, lines 195--217)\<close>

text \<open>
  \<open>processPdf\<close> belongs to the rendering service; what it does during one export is a
  parameter: the progress values it reports, in order, and how it ends, either with the
  URL of the result or with a thrown value. The \<open>catch\<close> clause takes the thrown value as
  \<open>any\<close> and reads its \<open>message\<close>: the thrown value is \<open>undefined\<close> or \<open>null\<close>
  (\<open>Nullish\<close>), or any other value, given with its \<open>message\<close> when that is a string
  (\<open>None\<close> when the property is missing or holds \<open>undefined\<close> or \<open>null\<close>). A
  \<open>message\<close> of another type is outside the declared type \<open>string | null\<close> of the
  \<open>error\<close> field and outside this model.
\<close>

datatype Thrown = Nullish | Value "string option"

datatype ProcessResult = Resolves string | Rejects Thrown

record ProcessRun =
  reports :: "nat list"
  outcome :: ProcessResult

text \<open>
  How a call of the handler ends: it returns, or an exception leaves it. Reading
  \<open>err.message\<close> of \<open>undefined\<close> or \<open>null\<close> inside the \<open>catch\<close> clause (line 213)
  throws a \<open>TypeError\<close> that nothing catches; the call of \<open>setProcessState\<close> whose
  argument was being built does not happen.
\<close>

datatype Completion = Completed | UncaughtTypeError

definition unknownErrorMessage :: string where
  "unknownErrorMessage = ''Unknown error occurred during PDF generation.''"

definition orDefault :: "string option \<Rightarrow> string \<Rightarrow> string" where
  "orDefault m d = (case m of None \<Rightarrow> d | Some s \<Rightarrow> if s = [] then d else s)"

text \<open>
  The handler is taken as one step: the state it ends in does not depend on the values
  of \<open>processState\<close> in between. Releasing the URL of an earlier result
  (\<open>URL.revokeObjectURL\<close>) leaves the state as it is and is not modelled.
\<close>

definition handleProcess :: "AppState \<Rightarrow> bool \<Rightarrow> ProcessRun \<Rightarrow> AppState \<times> Completion" where
  "handleProcess st useImposition run =
     (case file' st of
        None \<Rightarrow> (st, Completed)
      | Some f \<Rightarrow>
          (let started = st\<lparr>processState :=
                 \<lparr>isProcessing = True, progress = 0, error = None, resultUrl = None\<rparr>\<rparr>;
               reported = foldl (\<lambda>s p. s\<lparr>processState := (processState s)\<lparr>progress := p\<rparr>\<rparr>)
                            started (reports run)
           in case outcome run of
                Resolves url \<Rightarrow>
                  (reported\<lparr>processState :=
                     \<lparr>isProcessing = False, progress = 100, error = None, resultUrl = Some url\<rparr>\<rparr>,
                   Completed)
              | Rejects Nullish \<Rightarrow> (reported, UncaughtTypeError)
              | Rejects (Value m) \<Rightarrow>
                  (reported\<lparr>processState :=
                     \<lparr>isProcessing = False, progress = 0,
                      error = Some (orDefault m unknownErrorMessage), resultUrl = None\<rparr>\<rparr>,
                   Completed)))"

section \<open>The application as a transition system\<close>

text \<open>
  One event per handler call, with what the environment supplies: the selected file and
  what the PDF library makes of it, the texts typed into the fields, the clock, the
  indices of the thumbnails involved, and the behaviour of the rendering service.
\<close>

datatype Event =
    FileChange "File option" LoadResult "nat \<Rightarrow> string"
  | DeleteInputChange string
  | BulkDelete
  | CountChange string
  | TargetChange string
  | PositionClick Position
  | InsertBlank "nat \<Rightarrow> nat"
  | DragStart nat
  | Drop nat
  | DeleteClick string
  | Undo
  | Process bool ProcessRun

fun step :: "AppState \<Rightarrow> Event \<Rightarrow> AppState option" where
  "step st (FileChange selected loaded rnd) = Some (handleFileChange st selected loaded rnd)"
| "step st (DeleteInputChange v) = Some (onDeleteInputChange st v)"
| "step st BulkDelete = Some (handleBulkDelete st)"
| "step st (CountChange v) = Some (onCountChange st v)"
| "step st (TargetChange v) = Some (onTargetChange st v)"
| "step st (PositionClick p) = Some (onPositionClick st p)"
| "step st (InsertBlank now) = Some (handleInsertBlank st now)"
| "step st (DragStart index) = Some (onDragStart st index)"
| "step st (Drop targetIndex) = onDrop st targetIndex"
| "step st (DeleteClick pid) = Some (onDeleteClick st pid)"
| "step st Undo = Some (undo st)"
| "step st (Process useImposition run) = Some (fst (handleProcess st useImposition run))"

fun runEvents :: "AppState \<Rightarrow> Event list \<Rightarrow> AppState option" where
  "runEvents st [] = Some st"
| "runEvents st (e # es) =
     (case step st e of None \<Rightarrow> None | Some st' \<Rightarrow> runEvents st' es)"

text \<open>The handlers that change the sequence; each of them goes through \<open>saveToHistory\<close>.\<close>

fun mutating :: "Event \<Rightarrow> bool" where
  "mutating BulkDelete = True"
| "mutating (InsertBlank now) = True"
| "mutating (Drop targetIndex) = True"
| "mutating (DeleteClick pid) = True"
| "mutating e = False"

section \<open>The kind invariant of page descriptors\<close>

text \<open>
  The invariant as the specification words it: a blank descriptor carries neither a
  source file reference nor a source page index, every other kind carries both.
\<close>

definition kindInvariant :: "PageItem \<Rightarrow> bool" where
  "kindInvariant p =
     (case type p of
        Blank \<Rightarrow> sourceFileId p = None \<and> originalPageIndex p = None
      | _ \<Rightarrow> sourceFileId p \<noteq> None \<and> originalPageIndex p \<noteq> None)"

text \<open>
  What the handlers establish: an original page carries its page index and no source
  file reference, a blank carries neither, and there is no descriptor of another kind.
\<close>

definition createdKind :: "PageItem \<Rightarrow> bool" where
  "createdKind p =
     (case type p of
        Original \<Rightarrow> sourceFileId p = None \<and> originalPageIndex p \<noteq> None
      | Blank \<Rightarrow> sourceFileId p = None \<and> originalPageIndex p = None
      | _ \<Rightarrow> False)"

definition stateOk :: "AppState \<Rightarrow> bool" where
  "stateOk st = (list_all createdKind (pages st) \<and> list_all (list_all createdKind) (history st))"

section \<open>The imposition planner\<close>

text \<open>
  Modelled from the spec: \<open>calculateImposition\<close> (the specification's \<open>planImposition\<close>)
  lives in \<open>services/pdfService\<close>, which is not among the sources; only its call in
  line 219 is. A quadrant of a block is the descriptor at that position of the block, or
  empty when the sequence has run out.
\<close>

definition slot :: "PageItem list \<Rightarrow> nat \<Rightarrow> PageItem option" where
  "slot ps i = (if i < length ps then Some (ps ! i) else None)"

text \<open>
  Modelled from the spec: the sheet of block \<open>b\<close>, missing with \<open>services/pdfService\<close>.
  The four descriptors of the block go to front-left, front-right, back-left and
  back-right, in this order.
\<close>

definition sheetOf :: "nat \<Rightarrow> PageItem list \<Rightarrow> PageMap" where
  "sheetOf b blk =
     \<lparr>sheetIndex = b,
      front = \<lparr>left = slot blk 0, right = slot blk 1\<rparr>,
      back' = \<lparr>left = slot blk 2, right = slot blk 3\<rparr>\<rparr>"

text \<open>
  Modelled from the spec: the loop of the planner, missing with \<open>services/pdfService\<close>.
  The sequence is processed in blocks of 4 consecutive descriptors; block \<open>b\<close> produces
  sheet \<open>b\<close>.
\<close>

function planFrom :: "nat \<Rightarrow> PageItem list \<Rightarrow> PageMap list" where
  "planFrom b seq =
     (if seq = [] then [] else sheetOf b (take 4 seq) # planFrom (Suc b) (drop 4 seq))"
  by pat_completeness auto
termination
  by (relation "measure (\<lambda>(b, seq). length seq)") auto

declare planFrom.simps [simp del]

text \<open>
  Modelled from the spec: the planner itself, missing with \<open>services/pdfService\<close>:
  the blocks of the whole sequence, counted from 0.
\<close>

definition planImposition :: "PageItem list \<Rightarrow> PageMap list" where
  "planImposition seq = planFrom 0 seq"

text \<open>
  The traversal order of the specification: the quadrants of a sheet are read
  front-left, front-right, back-left, back-right; the sheets are read in the order of
  the list; empty quadrants are discarded.
\<close>

definition quadrants :: "PageMap \<Rightarrow> PageItem option list" where
  "quadrants s = [left (front s), right (front s), left (back' s), right (back' s)]"

fun discardEmpty :: "'a option list \<Rightarrow> 'a list" where
  "discardEmpty [] = []"
| "discardEmpty (None # qs) = discardEmpty qs"
| "discardEmpty (Some x # qs) = x # discardEmpty qs"

definition readSheets :: "PageMap list \<Rightarrow> PageItem list" where
  "readSheets sheets = discardEmpty (concat (map quadrants sheets))"

section \<open>Auxiliary notions for the proofs\<close>

text \<open>The two list operations that a \<open>splice\<close> of one element amounts to.\<close>

definition removeAt :: "nat \<Rightarrow> 'a list \<Rightarrow> 'a list" where
  "removeAt d xs = take d xs @ drop (Suc d) xs"

definition insertAt :: "nat \<Rightarrow> 'a \<Rightarrow> 'a list \<Rightarrow> 'a list" where
  "insertAt t x xs = take t xs @ x # drop t xs"

text \<open>Sample inputs: a PDF file and the state after loading it with \<open>n\<close> pages.\<close>

definition samplePdf :: File where
  "samplePdf = \<lparr>fileName = ''book.pdf'', fileType = ''application/pdf''\<rparr>"

definition sampleRnd :: "nat \<Rightarrow> string" where
  "sampleRnd i = ''0.5''"

definition sampleClock :: "nat \<Rightarrow> nat" where
  "sampleClock i = 7"

definition sampleDoc :: "nat \<Rightarrow> AppState" where
  "sampleDoc n = handleFileChange initialState (Some samplePdf) (PageCount n) sampleRnd"

section \<open>Properties of undo\<close>

lemma length_sliceLast: "length (sliceLast k xs) = min k (length xs)"
  by (simp add: sliceLast_def)

lemma undo_empty: "history st = [] \<Longrightarrow> undo st = st"
  by (simp add: undo_def)

lemma history_undo: "history (undo st) = butlast (history st)"
  by (simp add: undo_def)

lemma length_history_undo_pow: "length (history ((undo ^^ n) st)) = length (history st) - n"
  by (induction n) (simp_all add: history_undo)

lemma undo_pow_beyond:
  "(undo ^^ (length (history st) + k)) st = (undo ^^ length (history st)) st"
proof (induction k)
  case 0
  show ?case by simp
next
  case (Suc k)
  have "history ((undo ^^ (length (history st) + k)) st) = []"
    using length_history_undo_pow [of "length (history st) + k" st] by simp
  then have "undo ((undo ^^ (length (history st) + k)) st) = (undo ^^ (length (history st) + k)) st"
    by (rule undo_empty)
  with Suc show ?case by simp
qed

lemma undo_after_mutation:
  assumes "mutating e" and "step st e = Some st'"
  shows "st' = st \<or> pages (undo st') = pages st"
proof (cases e)
  case BulkDelete
  with assms(2) show ?thesis
    by (auto simp: handleBulkDelete_def Let_def undo_def saveToHistory_def)
next
  case (InsertBlank now)
  with assms(2) show ?thesis
    by (auto simp: handleInsertBlank_def undo_def saveToHistory_def)
next
  case (Drop t)
  with assms(2) show ?thesis
    by (auto simp: onDrop_def undo_def saveToHistory_def
        split: option.splits if_splits prod.splits list.splits)
next
  case (DeleteClick pid)
  with assms(2) show ?thesis
    by (auto simp: onDeleteClick_def undo_def saveToHistory_def)
qed (use assms(1) in simp_all)

text \<open>
  C8. Undoing directly after a mutation brings back the page sequence that was current
  just before it: this holds for \<open>saveToHistory\<close> with any new sequence, and for each
  mutating handler (bulk delete, insert blank, drop, delete one page) unless the handler
  returned early and left the state as it was. The history never holds more than 20
  snapshots. With an empty history \<open>undo\<close> leaves the state as it is, and undoing more
  often than there are snapshots changes nothing beyond the point where the history ran
  empty; \<open>undo\<close> is a total function, so there is no failing branch.
\<close>

theorem undo_restores_snapshot:
  "pages (undo (saveToHistory st newPages)) = pages st
   \<and> (mutating e \<and> step st e = Some st' \<longrightarrow> st' = st \<or> pages (undo st') = pages st)
   \<and> length (history (saveToHistory st newPages)) \<le> 20
   \<and> (history st = [] \<longrightarrow> undo st = st)
   \<and> (undo ^^ (length (history st) + k)) st = (undo ^^ length (history st)) st
   \<and> history ((undo ^^ (length (history st) + k)) st) = []"
proof -
  have a: "pages (undo (saveToHistory st newPages)) = pages st"
    by (simp add: undo_def saveToHistory_def)
  have m: "mutating e \<and> step st e = Some st' \<longrightarrow> st' = st \<or> pages (undo st') = pages st"
    using undo_after_mutation [of e st st'] by blast
  have b: "length (history (saveToHistory st newPages)) \<le> 20"
    by (simp add: saveToHistory_def length_sliceLast)
  have c: "history st = [] \<longrightarrow> undo st = st"
    by (simp add: undo_empty)
  have d: "(undo ^^ (length (history st) + k)) st = (undo ^^ length (history st)) st"
    by (rule undo_pow_beyond)
  have e: "history ((undo ^^ (length (history st) + k)) st) = []"
    using length_history_undo_pow [of "length (history st) + k" st] by simp
  from a m b c d e show ?thesis by blast
qed

theorem undo_restores_snapshot_witness:
  "history initialState = [] \<and> undo initialState = initialState
   \<and> mutating (InsertBlank sampleClock)
   \<and> step (sampleDoc 2) (InsertBlank sampleClock) = Some (handleInsertBlank (sampleDoc 2) sampleClock)
   \<and> handleInsertBlank (sampleDoc 2) sampleClock \<noteq> sampleDoc 2
   \<and> pages (undo (handleInsertBlank (sampleDoc 2) sampleClock)) = pages (sampleDoc 2)"
proof -
  have h: "history (handleInsertBlank (sampleDoc 2) sampleClock) \<noteq> history (sampleDoc 2)"
    by (simp add: handleInsertBlank_def saveToHistory_def sampleDoc_def handleFileChange_def
        samplePdf_def sliceLast_def)
  then have ne: "handleInsertBlank (sampleDoc 2) sampleClock \<noteq> sampleDoc 2" by auto
  show ?thesis
    using ne
      undo_restores_snapshot [of "sampleDoc 2" "[]" "InsertBlank sampleClock"
        "handleInsertBlank (sampleDoc 2) sampleClock" 0, THEN conjunct2, THEN conjunct1]
      undo_restores_snapshot [of initialState "[]" Undo initialState 0,
        THEN conjunct2, THEN conjunct2, THEN conjunct2, THEN conjunct1]
    by (simp add: initialState_def)
qed

section \<open>Properties of drag and drop\<close>

lemma splice_remove_one:
  "d < length xs \<Longrightarrow> splice' d (Suc 0) [] xs = ([xs ! d], removeAt d xs)"
  by (simp add: splice'_def removeAt_def take_Suc_conv_app_nth Cons_nth_drop_Suc [symmetric])

lemma splice_insert_one: "snd (splice' t 0 [x] xs) = insertAt t x xs"
  by (simp add: splice'_def insertAt_def)

lemma length_removeAt: "d < length xs \<Longrightarrow> length (removeAt d xs) = length xs - 1"
  by (simp add: removeAt_def)

lemma length_insertAt: "length (insertAt t x r) = Suc (length r)"
  by (simp add: insertAt_def)

lemma nth_insertAt: "t \<le> length r \<Longrightarrow> insertAt t x r ! t = x"
  by (simp add: insertAt_def nth_append)

lemma removeAt_insertAt: "t \<le> length r \<Longrightarrow> removeAt t (insertAt t x r) = r"
  by (simp add: insertAt_def removeAt_def)

lemma insertAt_removeAt: "d < length xs \<Longrightarrow> insertAt d (xs ! d) (removeAt d xs) = xs"
  by (simp add: insertAt_def removeAt_def min_def id_take_nth_drop [symmetric])

lemma mset_insertAt: "mset (insertAt t x r) = add_mset x (mset r)"
proof -
  have "mset (take t r) + mset (drop t r) = mset r"
    by (simp only: mset_append [symmetric] append_take_drop_id)
  then show ?thesis by (simp add: insertAt_def)
qed

lemma mset_removeAt: "d < length xs \<Longrightarrow> add_mset (xs ! d) (mset (removeAt d xs)) = mset xs"
proof -
  assume d: "d < length xs"
  have "add_mset (xs ! d) (mset (removeAt d xs)) = mset (take d xs @ xs ! d # drop (Suc d) xs)"
    by (simp add: removeAt_def)
  also have "\<dots> = mset xs" using d by (simp only: id_take_nth_drop [symmetric])
  finally show ?thesis .
qed

lemma onDrop_moves:
  assumes "d < length (pages st)" "d \<noteq> t"
  shows "onDrop (onDragStart st d) t =
           Some ((saveToHistory (onDragStart st d)
                   (insertAt t (pages st ! d) (removeAt d (pages st))))\<lparr>draggedIndex := None\<rparr>)"
  using assms by (simp add: onDrop_def onDragStart_def splice_remove_one splice_insert_one)

lemma pages_saveToHistory: "pages ((saveToHistory st ps)\<lparr>draggedIndex := v\<rparr>) = ps"
  by (simp add: saveToHistory_def)

lemma length_pages_sampleDoc: "length (pages (sampleDoc n)) = n"
  by (simp add: sampleDoc_def handleFileChange_def samplePdf_def initialPages_def)

text \<open>
  C5. For a sequence and two positions in it: dragging the page at \<open>d\<close> and dropping it on
  position \<open>t\<close> removes the page at \<open>d\<close> and inserts it at position \<open>t\<close> of the shortened
  sequence; then at once dragging the page at \<open>t\<close> and dropping it on \<open>d\<close> gives back the
  original order. Both drops succeed.
\<close>

theorem move_then_move_back:
  assumes "d < length (pages st)" and "t < length (pages st)"
  shows "\<exists>st1 st2. onDrop (onDragStart st d) t = Some st1
            \<and> pages st1 = insertAt t (pages st ! d) (removeAt d (pages st))
            \<and> pages st1 =
                 take t (take d (pages st) @ drop (Suc d) (pages st)) @ pages st ! d #
                 drop t (take d (pages st) @ drop (Suc d) (pages st))
            \<and> onDrop (onDragStart st1 t) d = Some st2
            \<and> pages st2 = pages st"
proof (cases "d = t")
  case True
  have "insertAt t (pages st ! t) (removeAt t (pages st)) = pages st"
    using assms(2) by (rule insertAt_removeAt)
  then have "pages (onDragStart st t) = insertAt t (pages st ! t) (removeAt t (pages st))"
    by (simp add: onDragStart_def)
  moreover have "onDrop (onDragStart st t) t = Some (onDragStart st t)"
    by (simp add: onDrop_def onDragStart_def)
  moreover have "onDrop (onDragStart (onDragStart st t) t) t = Some (onDragStart (onDragStart st t) t)"
    by (simp add: onDrop_def onDragStart_def)
  moreover have "pages (onDragStart (onDragStart st t) t) = pages st"
    by (simp add: onDragStart_def)
  ultimately show ?thesis unfolding True insertAt_def removeAt_def by blast
next
  case False
  let ?r = "removeAt d (pages st)"
  let ?ys = "insertAt t (pages st ! d) ?r"
  let ?st1 = "(saveToHistory (onDragStart st d) ?ys)\<lparr>draggedIndex := None\<rparr>"
  have tr: "t \<le> length ?r" using assms by (simp add: length_removeAt)
  have 1: "onDrop (onDragStart st d) t = Some ?st1"
    using assms(1) False by (rule onDrop_moves)
  have p1: "pages ?st1 = ?ys" by (rule pages_saveToHistory)
  have t1: "t < length (pages ?st1)" unfolding p1 using tr by (simp add: length_insertAt)
  have ne: "t \<noteq> d" using False by simp
  have 2: "onDrop (onDragStart ?st1 t) d =
      Some ((saveToHistory (onDragStart ?st1 t)
              (insertAt d (pages ?st1 ! t) (removeAt t (pages ?st1))))\<lparr>draggedIndex := None\<rparr>)"
    using t1 ne by (rule onDrop_moves)
  have r: "removeAt t (pages ?st1) = ?r"
    unfolding p1 using tr by (rule removeAt_insertAt)
  have x: "pages ?st1 ! t = pages st ! d"
    unfolding p1 using tr by (rule nth_insertAt)
  have restored: "insertAt d (pages ?st1 ! t) (removeAt t (pages ?st1)) = pages st"
    unfolding r x using assms(1) by (rule insertAt_removeAt)
  have 3: "pages ((saveToHistory (onDragStart ?st1 t)
              (insertAt d (pages ?st1 ! t) (removeAt t (pages ?st1))))\<lparr>draggedIndex := None\<rparr>)
          = pages st"
    unfolding restored by (rule pages_saveToHistory)
  have p1': "pages ?st1 =
                 take t (take d (pages st) @ drop (Suc d) (pages st)) @ pages st ! d #
                 drop t (take d (pages st) @ drop (Suc d) (pages st))"
    using p1 by (simp only: insertAt_def removeAt_def)
  from 1 p1 p1' 2 3 show ?thesis by blast
qed

theorem move_then_move_back_witness:
  "(0::nat) < length (pages (sampleDoc 3)) \<and> (2::nat) < length (pages (sampleDoc 3))
   \<and> (\<exists>st1 st2. onDrop (onDragStart (sampleDoc 3) 0) 2 = Some st1
          \<and> pages st1 = insertAt 2 (pages (sampleDoc 3) ! 0) (removeAt 0 (pages (sampleDoc 3)))
          \<and> onDrop (onDragStart st1 2) 0 = Some st2
          \<and> pages st2 = pages (sampleDoc 3))"
proof -
  from move_then_move_back [of 0 "sampleDoc 3" 2]
  obtain st1 st2 where "onDrop (onDragStart (sampleDoc 3) 0) 2 = Some st1"
    and "pages st1 = insertAt 2 (pages (sampleDoc 3) ! 0) (removeAt 0 (pages (sampleDoc 3)))"
    and "onDrop (onDragStart st1 2) 0 = Some st2"
    and "pages st2 = pages (sampleDoc 3)"
    by (auto simp: length_pages_sampleDoc)
  then show ?thesis by (auto simp: length_pages_sampleDoc)
qed

text \<open>
  C10. For a dragged position and a target position of the sequence, the drop succeeds
  and only permutes the sequence: same length, the same multiset of descriptors and of
  identifiers, and identifiers that were pairwise different stay so.
\<close>

theorem onDrop_permutation:
  assumes "d < length (pages st)" and "t < length (pages st)"
  shows "\<exists>st1. onDrop (onDragStart st d) t = Some st1
            \<and> length (pages st1) = length (pages st)
            \<and> mset (pages st1) = mset (pages st)
            \<and> mset (map id' (pages st1)) = mset (map id' (pages st))
            \<and> (distinct (map id' (pages st)) \<longrightarrow> distinct (map id' (pages st1)))"
proof (cases "d = t")
  case True
  then show ?thesis by (simp add: onDrop_def onDragStart_def)
next
  case False
  let ?r = "removeAt d (pages st)"
  let ?ys = "insertAt t (pages st ! d) ?r"
  let ?st1 = "(saveToHistory (onDragStart st d) ?ys)\<lparr>draggedIndex := None\<rparr>"
  have 1: "onDrop (onDragStart st d) t = Some ?st1"
    using assms(1) False by (rule onDrop_moves)
  have p1: "pages ?st1 = ?ys" by (rule pages_saveToHistory)
  have "mset ?ys = add_mset (pages st ! d) (mset ?r)" by (rule mset_insertAt)
  also have "\<dots> = mset (pages st)" using assms(1) by (rule mset_removeAt)
  finally have m: "mset (pages ?st1) = mset (pages st)" unfolding p1 .
  then have l: "length (pages ?st1) = length (pages st)" by (rule mset_eq_length)
  have mi: "mset (map id' (pages ?st1)) = mset (map id' (pages st))"
    using m by (metis mset_map)
  then have "distinct (map id' (pages st)) \<longrightarrow> distinct (map id' (pages ?st1))"
    by (metis mset_eq_imp_distinct_iff)
  with 1 m l mi show ?thesis by blast
qed

theorem onDrop_permutation_witness:
  "(1::nat) < length (pages (sampleDoc 3)) \<and> (0::nat) < length (pages (sampleDoc 3))
   \<and> distinct (map id' (pages (sampleDoc 3)))
   \<and> (\<exists>st1. onDrop (onDragStart (sampleDoc 3) 1) 0 = Some st1
          \<and> length (pages st1) = length (pages (sampleDoc 3))
          \<and> mset (pages st1) = mset (pages (sampleDoc 3))
          \<and> mset (map id' (pages st1)) = mset (map id' (pages (sampleDoc 3)))
          \<and> distinct (map id' (pages st1)))"
proof -
  have d: "distinct (map id' (pages (sampleDoc 3)))" by code_simp
  show ?thesis
    using onDrop_permutation [of 1 "sampleDoc 3" 0] d by (simp add: length_pages_sampleDoc)
qed

section \<open>Properties of the range parser\<close>

lemma parts_1_3_10_15:
  "foldl addPart [] (map trim (split (CHR '','') ''1,3,10-15'')) = [0, 2, 9, 10, 11, 12, 13, 14]"
  by code_simp

lemma parts_15_10:
  "foldl addPart [] (map trim (split (CHR '','') ''15-10'')) = [9, 10, 11, 12, 13, 14]"
  by code_simp

lemma parts_10_15:
  "foldl addPart [] (map trim (split (CHR '','') ''10-15'')) = [9, 10, 11, 12, 13, 14]"
  by code_simp

lemma split_no_separator: "c \<notin> set s \<Longrightarrow> split c s = [s]"
  by (induction s) auto

lemma split_at_separator: "c \<notin> set a \<Longrightarrow> split c (a @ c # r) = a # split c r"
  by (induction a) auto

lemma hyphen_not_white: "\<not> isWhiteSpace (CHR ''-'')"
  by (simp add: isWhiteSpace_def)

lemma white_not_digit: "isWhiteSpace c \<Longrightarrow> \<not> isDigitOf radix c"
  by (auto simp: isWhiteSpace_def isDigitOf_def digitVal_def)

lemma trim_range:
  "trim (a @ CHR ''-'' # b) =
     dropWhile isWhiteSpace a @ CHR ''-'' # rev (dropWhile isWhiteSpace (rev b))"
  by (simp add: trim_def dropWhile_append3 hyphen_not_white)

lemma parseDigits_append_white:
  assumes "\<forall>c\<in>set w. isWhiteSpace c"
  shows "parseDigits radix neg (s @ w) = parseDigits radix neg s"
proof -
  have "takeWhile (isDigitOf radix) w = []"
    using assms by (cases w) (auto dest: white_not_digit)
  then have "takeWhile (isDigitOf radix) (s @ w) = takeWhile (isDigitOf radix) s"
  proof (cases "\<forall>c\<in>set s. isDigitOf radix c")
    case True
    then have "takeWhile (isDigitOf radix) s = s" by (simp add: takeWhile_eq_all_conv)
    moreover from True have "takeWhile (isDigitOf radix) (s @ w) = s @ takeWhile (isDigitOf radix) w"
      by (simp add: takeWhile_append2)
    ultimately show ?thesis using \<open>takeWhile (isDigitOf radix) w = []\<close>
      by (simp only: append_Nil2)
  next
    case False
    then obtain x where "x \<in> set s" "\<not> isDigitOf radix x" by blast
    then show ?thesis by (rule takeWhile_append1)
  qed
  then show ?thesis by (simp add: parseDigits_def)
qed

lemma prefix_append_white:
  assumes "\<forall>c\<in>set w. isWhiteSpace c" and "p = ''0x'' \<or> p = ''0X''"
  shows "(take 2 (s @ w) = p) = (take 2 s = p)"
proof (cases s)
  case Nil
  with assms show ?thesis
    by (cases w; cases "tl w") (auto simp: isWhiteSpace_def)
next
  case (Cons c r)
  with assms show ?thesis
    by (cases r; cases w) (auto simp: isWhiteSpace_def)
qed

lemma parseUnsigned_append_white:
  assumes "\<forall>c\<in>set w. isWhiteSpace c"
  shows "parseUnsigned neg (s @ w) = parseUnsigned neg s"
proof -
  have x: "(take 2 (s @ w) = ''0x'') = (take 2 s = ''0x'')"
    using assms by (rule prefix_append_white) simp
  have X: "(take 2 (s @ w) = ''0X'') = (take 2 s = ''0X'')"
    using assms by (rule prefix_append_white) simp
  have d: "drop 2 (s @ w) = drop 2 s @ w" if "take 2 s = ''0x'' \<or> take 2 s = ''0X''"
  proof -
    from that have "length (take 2 s) = length ''0x'' \<or> length (take 2 s) = length ''0X''"
      by (metis (full_types))
    then have "2 \<le> length s" by simp
    then show ?thesis by simp
  qed
  show ?thesis
    unfolding parseUnsigned_def x X
    using d parseDigits_append_white [OF assms] by auto
qed

lemma parseInt_append_white:
  assumes "\<forall>c\<in>set w. isWhiteSpace c"
  shows "parseInt (s @ w) = parseInt s"
proof (cases "\<forall>c\<in>set s. isWhiteSpace c")
  case True
  with assms have "dropWhile isWhiteSpace (s @ w) = []" "dropWhile isWhiteSpace s = []"
    by auto
  then show ?thesis by (simp only: parseInt_def list.case)
next
  case False
  then obtain c r where cr: "dropWhile isWhiteSpace s = c # r"
    by (cases "dropWhile isWhiteSpace s") auto
  from False obtain x where "x \<in> set s" "\<not> isWhiteSpace x" by blast
  then have "dropWhile isWhiteSpace (s @ w) = dropWhile isWhiteSpace s @ w"
    by (rule dropWhile_append1)
  with cr have "dropWhile isWhiteSpace (s @ w) = c # (r @ w)" by simp
  with cr show ?thesis
    using parseUnsigned_append_white [OF assms, of _ r]
      parseUnsigned_append_white [OF assms, of False "c # r"]
    by (simp add: parseInt_def)
qed

lemma parseInt_trim_left: "parseInt (dropWhile isWhiteSpace s) = parseInt s"
  by (simp add: parseInt_def)

lemma parseInt_trim_right: "parseInt (rev (dropWhile isWhiteSpace (rev s))) = parseInt s"
proof -
  let ?y = "rev (dropWhile isWhiteSpace (rev s))"
  let ?w = "rev (takeWhile isWhiteSpace (rev s))"
  have "?y @ ?w = rev (takeWhile isWhiteSpace (rev s) @ dropWhile isWhiteSpace (rev s))"
    by (simp only: rev_append)
  also have "\<dots> = rev (rev s)" by (simp only: takeWhile_dropWhile_id)
  finally have s: "s = ?y @ ?w" by simp
  have "\<forall>c\<in>set ?w. isWhiteSpace c" by (auto dest: set_takeWhileD)
  then have "parseInt (?y @ ?w) = parseInt ?y" by (rule parseInt_append_white)
  with s show ?thesis by simp
qed

lemma addPart_range:
  assumes "CHR ''-'' \<notin> set x" and "CHR ''-'' \<notin> set y"
  shows "addPart indices (x @ CHR ''-'' # y) =
           (case parseInt x of
              None \<Rightarrow> indices
            | Some s \<Rightarrow> (case parseInt y of
                          None \<Rightarrow> indices
                        | Some e \<Rightarrow> addRange (min s e) (max s e) indices))"
  using assms
  by (simp add: addPart_def includes'_def split_at_separator split_no_separator
      split: option.splits)

lemma range_order_insensitive:
  assumes "CHR ''-'' \<notin> set a" "CHR ''-'' \<notin> set b" "CHR '','' \<notin> set a" "CHR '','' \<notin> set b"
  shows "parseDeleteRanges ps (a @ ''-'' @ b) = parseDeleteRanges ps (b @ ''-'' @ a)"
proof -
  have parts: "foldl addPart [] (map trim (split (CHR '','') (x @ CHR ''-'' # y))) =
          (case parseInt x of
              None \<Rightarrow> []
            | Some s \<Rightarrow> (case parseInt y of
                          None \<Rightarrow> []
                        | Some e \<Rightarrow> addRange (min s e) (max s e) []))"
    if "CHR ''-'' \<notin> set x" "CHR ''-'' \<notin> set y" "CHR '','' \<notin> set x" "CHR '','' \<notin> set y"
    for x y
  proof -
    have "split (CHR '','') (x @ CHR ''-'' # y) = [x @ CHR ''-'' # y]"
      using that by (simp add: split_no_separator)
    moreover have "CHR ''-'' \<notin> set (dropWhile isWhiteSpace x)"
      using that by (auto dest: set_dropWhileD)
    moreover have "CHR ''-'' \<notin> set (rev (dropWhile isWhiteSpace (rev y)))"
      using that by (auto dest: set_dropWhileD)
    ultimately show ?thesis
      by (simp add: trim_range addPart_range parseInt_trim_left parseInt_trim_right
          cong: option.case_cong)
  qed
  show ?thesis
    using parts [OF assms] parts [OF assms(2) assms(1) assms(4) assms(3)]
    by (simp add: parseDeleteRanges_def min.commute max.commute split: option.splits)
qed

text \<open>
  C6. \<open>parseDeleteRanges\<close> is a function of the input text and the current sequence (it
  reads only its length). Over a sequence of 20 pages, \<open>1,3,10-15\<close> yields the zero-based
  indices 0, 2, 9, 10, 11, 12, 13, 14, and \<open>15-10\<close> yields what \<open>10-15\<close> yields, the
  indices 9 to 14. In general a range gives the same indices with its two ends
  exchanged, for any two ends that contain neither a hyphen nor a comma.
\<close>

theorem parseDeleteRanges_examples:
  assumes "length ps = 20"
  shows "parseDeleteRanges ps ''1,3,10-15'' = [0, 2, 9, 10, 11, 12, 13, 14]
       \<and> set (parseDeleteRanges ps ''1,3,10-15'') = {0, 2, 9, 10, 11, 12, 13, 14}
       \<and> parseDeleteRanges ps ''15-10'' = parseDeleteRanges ps ''10-15''
       \<and> set (parseDeleteRanges ps ''10-15'') = {9, 10, 11, 12, 13, 14}
       \<and> (CHR ''-'' \<notin> set a \<and> CHR ''-'' \<notin> set b \<and> CHR '','' \<notin> set a \<and> CHR '','' \<notin> set b
            \<longrightarrow> parseDeleteRanges qs (a @ ''-'' @ b) = parseDeleteRanges qs (b @ ''-'' @ a))"
proof -
  have "parseDeleteRanges ps ''1,3,10-15'' = [0, 2, 9, 10, 11, 12, 13, 14]
       \<and> set (parseDeleteRanges ps ''1,3,10-15'') = {0, 2, 9, 10, 11, 12, 13, 14}
       \<and> parseDeleteRanges ps ''15-10'' = parseDeleteRanges ps ''10-15''
       \<and> set (parseDeleteRanges ps ''10-15'') = {9, 10, 11, 12, 13, 14}"
    unfolding parseDeleteRanges_def parts_1_3_10_15 parts_15_10 parts_10_15
    using assms by simp
  then show ?thesis using range_order_insensitive [of a b qs] by blast
qed

theorem parseDeleteRanges_examples_witness:
  "length (pages (sampleDoc 20)) = 20
   \<and> CHR ''-'' \<notin> set ''7'' \<and> CHR ''-'' \<notin> set '' 4'' \<and> CHR '','' \<notin> set ''7'' \<and> CHR '','' \<notin> set '' 4''
   \<and> set (parseDeleteRanges (pages (sampleDoc 20)) ''1,3,10-15'') = {0, 2, 9, 10, 11, 12, 13, 14}
   \<and> parseDeleteRanges (pages (sampleDoc 20)) ''15-10''
        = parseDeleteRanges (pages (sampleDoc 20)) ''10-15''
   \<and> parseDeleteRanges (pages (sampleDoc 20)) ''7- 4''
        = parseDeleteRanges (pages (sampleDoc 20)) '' 4-7''"
  using parseDeleteRanges_examples [of "pages (sampleDoc 20)" "''7''" "'' 4''" "pages (sampleDoc 20)"]
  by (simp add: length_pages_sampleDoc)

section \<open>Properties of inserting blanks\<close>

text \<open>
  C7. The count field keeps a negative number as it is (only \<open>NaN\<close> and 0 become 1), and
  \<open>handleInsertBlank\<close> then inserts no blank at all: on a document of 5 pages, a count
  of \<open>-3\<close> leaves the 5 pages as they are.
\<close>

theorem insert_negative_count:
  "count' (insertConfig (onCountChange (sampleDoc 5) ''-3'')) = - 3
   \<and> pages (handleInsertBlank (onCountChange (sampleDoc 5) ''-3'') now) = pages (sampleDoc 5)
   \<and> length (pages (handleInsertBlank (onCountChange (sampleDoc 5) ''-3'') now)) = 5"
proof -
  have p: "parseInt ''-3'' = Some (- 3)" by code_simp
  have c: "count' (insertConfig (onCountChange (sampleDoc 5) ''-3'')) = - 3"
    by (simp add: onCountChange_def p orOne_def)
  have "newBlanks now (- 3) = []" by (simp add: newBlanks_def)
  then have "pages (handleInsertBlank (onCountChange (sampleDoc 5) ''-3'') now) = pages (sampleDoc 5)"
    by (simp add: handleInsertBlank_def p orOne_def saveToHistory_def splice'_def onCountChange_def)
  with c show ?thesis by (simp add: length_pages_sampleDoc)
qed

section \<open>Properties of the export\<close>

lemma pages_progress_reports:
  "pages (foldl (\<lambda>s p. s\<lparr>processState := (processState s)\<lparr>progress := p\<rparr>\<rparr>) s0 rs) = pages s0"
  by (induction rs arbitrary: s0) simp_all

lemma processState_progress_reports:
  "processState (foldl (\<lambda>s p. s\<lparr>processState := (processState s)\<lparr>progress := p\<rparr>\<rparr>) s0 rs) =
     (processState s0)\<lparr>progress := last (progress (processState s0) # rs)\<rparr>"
  by (induction rs arbitrary: s0) simp_all

text \<open>
  What holds of the failing export: when a file is loaded and the rendering service
  rejects with a value other than \<open>undefined\<close> and \<open>null\<close>, whatever progress it reported
  before, the handler returns and the export ends in one state: not processing,
  progress 0, no result URL, and an error message that is not empty (the thrown message,
  or a fixed text when there is none). The page sequence is untouched.
\<close>

lemma export_rejects_value:
  assumes "file' st = Some f" and "outcome run = Rejects (Value m)"
  shows "snd (handleProcess st useImposition run) = Completed
       \<and> processState (fst (handleProcess st useImposition run)) =
           \<lparr>isProcessing = False, progress = 0,
            error = Some (orDefault m unknownErrorMessage), resultUrl = None\<rparr>
       \<and> orDefault m unknownErrorMessage \<noteq> []
       \<and> pages (fst (handleProcess st useImposition run)) = pages st"
proof -
  have ne: "orDefault m unknownErrorMessage \<noteq> []"
    by (simp add: orDefault_def unknownErrorMessage_def split: option.splits)
  show ?thesis using assms ne by (simp add: handleProcess_def Let_def pages_progress_reports)
qed

lemma export_rejects_nullish:
  assumes "file' st = Some f" and "outcome run = Rejects Nullish"
  shows "snd (handleProcess st useImposition run) = UncaughtTypeError
       \<and> processState (fst (handleProcess st useImposition run)) =
           \<lparr>isProcessing = True, progress = last (0 # reports run),
            error = None, resultUrl = None\<rparr>"
  using assms by (simp add: handleProcess_def Let_def processState_progress_reports)

text \<open>
  C9. The claim holds for every thrown value but \<open>undefined\<close> and \<open>null\<close>. When the
  rendering service rejects with \<open>undefined\<close> after reporting 25 and 50 percent on a
  loaded document of 3 pages, the \<open>catch\<close> clause itself throws: the export does not
  reach the error state, processing stays marked as running at 50 percent, and no error
  message is recorded.
\<close>

theorem export_failure_nullish_stuck:
  "handleProcess (sampleDoc 3) True \<lparr>reports = [25, 50], outcome = Rejects Nullish\<rparr> =
     ((sampleDoc 3)\<lparr>processState :=
         \<lparr>isProcessing = True, progress = 50, error = None, resultUrl = None\<rparr>\<rparr>,
      UncaughtTypeError)
   \<and> isProcessing (processState (fst (handleProcess (sampleDoc 3) True
         \<lparr>reports = [25, 50], outcome = Rejects Nullish\<rparr>)))
   \<and> error (processState (fst (handleProcess (sampleDoc 3) True
         \<lparr>reports = [25, 50], outcome = Rejects Nullish\<rparr>))) = None"
  by (simp add: handleProcess_def sampleDoc_def handleFileChange_def samplePdf_def)

section \<open>Properties of loading\<close>




section \<open>Properties of the descriptor kinds\<close>

lemma initialPages_created:
  "list_all (\<lambda>p. type p = Original \<and> sourceFileId p = None \<and> originalPageIndex p \<noteq> None)
     (initialPages rnd n)"
  by (simp add: initialPages_def list_all_iff)

lemma newBlanks_created:
  "list_all (\<lambda>p. type p = Blank \<and> sourceFileId p = None \<and> originalPageIndex p = None)
     (newBlanks now n)"
  by (simp add: newBlanks_def list_all_iff)

lemma createdKind_initialPages: "list_all createdKind (initialPages rnd n)"
  by (simp add: initialPages_def list_all_iff createdKind_def)

lemma createdKind_newBlanks: "list_all createdKind (newBlanks now n)"
  by (simp add: newBlanks_def list_all_iff createdKind_def)

lemma stateOk_saveToHistory:
  assumes "stateOk st" and "list_all createdKind ps"
  shows "stateOk (saveToHistory st ps)"
proof -
  have "set (sliceLast 19 (history st)) \<subseteq> set (history st)"
    by (simp add: sliceLast_def set_drop_subset)
  with assms show ?thesis
    by (auto simp: stateOk_def saveToHistory_def list_all_iff)
qed

lemma set_filterIndex: "set (filterIndex keep xs) \<subseteq> set xs"
  by (auto simp: filterIndex_def dest: set_zip_leftD)

lemma stateOk_handleFileChange: "stateOk st \<Longrightarrow> stateOk (handleFileChange st sel loaded rnd)"
  by (auto simp: handleFileChange_def stateOk_def createdKind_initialPages
      split: option.splits LoadResult.splits)

lemma stateOk_handleBulkDelete: "stateOk st \<Longrightarrow> stateOk (handleBulkDelete st)"
proof -
  assume ok: "stateOk st"
  have "list_all createdKind (filterIndex keep (pages st))" for keep
    using ok set_filterIndex [of keep "pages st"] by (auto simp: stateOk_def list_all_iff)
  then have "stateOk (saveToHistory st (filterIndex keep (pages st)))" for keep
    using ok by (simp add: stateOk_saveToHistory)
  then have "stateOk ((saveToHistory st (filterIndex keep (pages st)))\<lparr>deleteInput := []\<rparr>)" for keep
    by (simp add: stateOk_def)
  with ok show ?thesis by (simp add: handleBulkDelete_def Let_def)
qed

lemma stateOk_handleInsertBlank: "stateOk st \<Longrightarrow> stateOk (handleInsertBlank st now)"
proof -
  assume ok: "stateOk st"
  let ?ps = "snd (splice' (targetIdx st) 0 (newBlanks now (count' (insertConfig st))) (pages st))"
  have "set ?ps \<subseteq> set (pages st) \<union> set (newBlanks now (count' (insertConfig st)))"
    by (auto simp: splice'_def dest: in_set_takeD in_set_dropD)
  then have "list_all createdKind ?ps"
    using ok createdKind_newBlanks [of now "count' (insertConfig st)"]
    by (auto simp: stateOk_def list_all_iff)
  with ok show ?thesis unfolding handleInsertBlank_def by (rule stateOk_saveToHistory)
qed

lemma stateOk_onDrop: "stateOk st \<Longrightarrow> onDrop st t = Some st' \<Longrightarrow> stateOk st'"
proof -
  assume ok: "stateOk st" and drop: "onDrop st t = Some st'"
  show ?thesis
  proof (cases "draggedIndex st")
    case None
    with drop ok show ?thesis by (simp add: onDrop_def)
  next
    case (Some d)
    show ?thesis
    proof (cases "d = t")
      case True
      with Some drop ok show ?thesis by (simp add: onDrop_def)
    next
      case False
      obtain removed rest where sp: "splice' d 1 [] (pages st) = (removed, rest)"
        by (cases "splice' d 1 [] (pages st)")
      then have sub: "set removed \<subseteq> set (pages st)" "set rest \<subseteq> set (pages st)"
        by (auto simp: splice'_def dest: in_set_takeD in_set_dropD)
      from drop Some False sp obtain m ms where
        rm: "removed = m # ms" and
        st': "st' = (saveToHistory st (snd (splice' t 0 [m] rest)))\<lparr>draggedIndex := None\<rparr>"
        by (cases removed) (auto simp: onDrop_def)
      have "set (snd (splice' t 0 [m] rest)) \<subseteq> insert m (set rest)"
        by (auto simp: splice'_def dest: in_set_takeD in_set_dropD)
      with sub rm have "list_all createdKind (snd (splice' t 0 [m] rest))"
        using ok by (auto simp: stateOk_def list_all_iff)
      with ok have "stateOk (saveToHistory st (snd (splice' t 0 [m] rest)))"
        by (rule stateOk_saveToHistory)
      then show ?thesis unfolding st' by (simp add: stateOk_def)
    qed
  qed
qed

lemma stateOk_onDeleteClick: "stateOk st \<Longrightarrow> stateOk (onDeleteClick st pid)"
proof -
  assume ok: "stateOk st"
  then have "list_all createdKind (filter (\<lambda>p. id' p \<noteq> pid) (pages st))"
    by (auto simp: stateOk_def list_all_iff)
  with ok show ?thesis unfolding onDeleteClick_def by (rule stateOk_saveToHistory)
qed

lemma stateOk_undo: "stateOk st \<Longrightarrow> stateOk (undo st)"
proof (cases "history st = []")
  case True
  assume "stateOk st"
  with True show ?thesis by (simp add: undo_def)
next
  case False
  assume ok: "stateOk st"
  from False have "last (history st) \<in> set (history st)" by simp
  moreover have "set (butlast (history st)) \<subseteq> set (history st)"
    by (auto dest: in_set_butlastD)
  ultimately show ?thesis using ok False
    by (auto simp: undo_def stateOk_def list_all_iff)
qed

lemma history_progress_reports:
  "history (foldl (\<lambda>s p. s\<lparr>processState := (processState s)\<lparr>progress := p\<rparr>\<rparr>) s0 rs) = history s0"
  by (induction rs arbitrary: s0) simp_all

lemma stateOk_handleProcess: "stateOk st \<Longrightarrow> stateOk (fst (handleProcess st u r))"
  by (simp add: handleProcess_def stateOk_def Let_def pages_progress_reports
      history_progress_reports split: option.splits ProcessResult.splits Thrown.splits)

lemma stateOk_setters:
  "stateOk (onDeleteInputChange st v) = stateOk st"
  "stateOk (onCountChange st v) = stateOk st"
  "stateOk (onTargetChange st v) = stateOk st"
  "stateOk (onPositionClick st p) = stateOk st"
  "stateOk (onDragStart st i) = stateOk st"
  by (simp_all add: stateOk_def onDeleteInputChange_def onCountChange_def onTargetChange_def
      onPositionClick_def onDragStart_def)

lemma stateOk_step:
  assumes "stateOk st" and "step st e = Some st'"
  shows "stateOk st'"
  using assms
  by (cases e)
    (auto simp: stateOk_setters stateOk_handleFileChange stateOk_handleBulkDelete
      stateOk_handleInsertBlank stateOk_onDeleteClick stateOk_undo stateOk_handleProcess
      dest: stateOk_onDrop)

lemma stateOk_run: "stateOk st \<Longrightarrow> runEvents st es = Some st' \<Longrightarrow> stateOk st'"
proof (induction es arbitrary: st)
  case Nil
  then show ?case by simp
next
  case (Cons e es)
  then show ?case by (auto split: option.splits dest: stateOk_step)
qed

lemma stateOk_initialState: "stateOk initialState"
  by (simp add: stateOk_def initialState_def)

text \<open>
  C4 (as the code has it). In every state the application reaches, each descriptor of the
  sequence and of every snapshot in the history is an original page with a page index
  and no source file reference, or a blank with neither; descriptors of the kinds
  external and duplicate do not occur. Loading creates descriptors of the first form,
  inserting blanks creates descriptors of the second.
\<close>

theorem descriptors_created_kind:
  assumes "runEvents initialState es = Some st"
  shows "list_all createdKind (pages st)
       \<and> list_all (list_all createdKind) (history st)
       \<and> list_all (\<lambda>p. type p = Original \<and> sourceFileId p = None \<and> originalPageIndex p \<noteq> None)
           (initialPages rnd n)
       \<and> list_all (\<lambda>p. type p = Blank \<and> sourceFileId p = None \<and> originalPageIndex p = None)
           (newBlanks now k)"
  using stateOk_run [OF stateOk_initialState assms] initialPages_created newBlanks_created
  by (simp add: stateOk_def)

theorem descriptors_created_kind_witness:
  "runEvents initialState [FileChange (Some samplePdf) (PageCount 2) sampleRnd, InsertBlank sampleClock]
     = Some (handleInsertBlank (sampleDoc 2) sampleClock)
   \<and> list_all createdKind (pages (handleInsertBlank (sampleDoc 2) sampleClock))"
proof -
  have r: "runEvents initialState [FileChange (Some samplePdf) (PageCount 2) sampleRnd, InsertBlank sampleClock]
             = Some (handleInsertBlank (sampleDoc 2) sampleClock)"
    by (simp add: sampleDoc_def)
  show ?thesis using r descriptors_created_kind [OF r] by simp
qed

text \<open>
  The invariant as the specification words it fails on the first page of a loaded
  document: it is an original page without a source file reference.
\<close>

theorem kind_invariant_counterexample:
  "runEvents initialState [FileChange (Some samplePdf) (PageCount 1) sampleRnd] = Some (sampleDoc 1)
   \<and> type (pages (sampleDoc 1) ! 0) = Original
   \<and> sourceFileId (pages (sampleDoc 1) ! 0) = None
   \<and> \<not> kindInvariant (pages (sampleDoc 1) ! 0)"
  by (simp add: sampleDoc_def handleFileChange_def samplePdf_def initialPages_def kindInvariant_def)

section \<open>Properties of the imposition planner\<close>

lemma planFrom_Nil: "planFrom b [] = []"
  by (simp add: planFrom.simps)

lemma planFrom_step:
  "seq \<noteq> [] \<Longrightarrow> planFrom b seq = sheetOf b (take 4 seq) # planFrom (Suc b) (drop 4 seq)"
  by (subst planFrom.simps) simp

lemma discardEmpty_padded: "discardEmpty (map Some xs @ replicate k None) = xs"
proof (induction xs)
  case Nil
  show ?case by (induction k) simp_all
next
  case (Cons x xs)
  then show ?case by simp
qed

lemma lt4_cases: "i < (4::nat) \<Longrightarrow> i = 0 \<or> i = 1 \<or> i = 2 \<or> i = 3"
  by arith

lemma quadrants_sheetOf:
  assumes "length blk \<le> 4"
  shows "quadrants (sheetOf b blk) = map Some blk @ replicate (4 - length blk) None"
proof (rule nth_equalityI)
  show "length (quadrants (sheetOf b blk)) = length (map Some blk @ replicate (4 - length blk) None)"
    using assms by (simp add: quadrants_def)
next
  fix i
  assume "i < length (quadrants (sheetOf b blk))"
  then have "i < 4" by (simp add: quadrants_def)
  then have "i = 0 \<or> i = 1 \<or> i = 2 \<or> i = 3" by (rule lt4_cases)
  then show "quadrants (sheetOf b blk) ! i = (map Some blk @ replicate (4 - length blk) None) ! i"
    using assms by (auto simp: quadrants_def sheetOf_def slot_def nth_append)
qed

lemma quadrants_planFrom:
  "concat (map quadrants (planFrom b seq)) =
     map Some seq @ replicate ((4 - length seq mod 4) mod 4) None"
proof (induction b seq rule: planFrom.induct)
  case (1 b seq)
  show ?case
  proof (cases "seq = []")
    case True
    then show ?thesis by (simp add: planFrom_Nil)
  next
    case False
    note ne = this
    have q: "quadrants (sheetOf b (take 4 seq)) =
               map Some (take 4 seq) @ replicate (4 - length (take 4 seq)) None"
      by (rule quadrants_sheetOf) simp
    have ih: "concat (map quadrants (planFrom (Suc b) (drop 4 seq))) =
                map Some (drop 4 seq) @ replicate ((4 - length (drop 4 seq) mod 4) mod 4) None"
      using 1 ne by simp
    show ?thesis
    proof (cases "4 \<le> length seq")
      case True
      then have "length seq mod 4 = (length seq - 4) mod 4"
        by (simp add: le_mod_geq)
      moreover have "map Some (take 4 seq) @ map Some (drop 4 seq) = map Some seq"
        by (simp only: map_append [symmetric] append_take_drop_id)
      ultimately show ?thesis using True ne q ih
        by (simp add: planFrom_step min_def)
    next
      case False
      then have short: "length seq < 4" by simp
      then have "take 4 seq = seq" "drop 4 seq = []" by simp_all
      moreover from short ne have "(4 - length seq mod 4) mod 4 = 4 - length seq"
        by (cases seq) simp_all
      ultimately show ?thesis using ne q by (simp add: planFrom_step planFrom_Nil)
    qed
  qed
qed

lemma sheetIndex_planFrom:
  "map sheetIndex (planFrom b seq) = [b..<b + length (planFrom b seq)]"
proof (induction b seq rule: planFrom.induct)
  case (1 b seq)
  show ?case
  proof (cases "seq = []")
    case True
    then show ?thesis by (simp add: planFrom_Nil)
  next
    case False
    let ?n = "length (planFrom (Suc b) (drop 4 seq))"
    from False 1 have ih: "map sheetIndex (planFrom (Suc b) (drop 4 seq)) = [Suc b..<Suc b + ?n]"
      by simp
    have "[b..<b + Suc ?n] = b # [Suc b..<b + Suc ?n]"
      by (rule upt_conv_Cons) simp
    then have "[b..<b + Suc ?n] = b # map sheetIndex (planFrom (Suc b) (drop 4 seq))"
      unfolding ih by simp
    moreover have "planFrom b seq = sheetOf b (take 4 seq) # planFrom (Suc b) (drop 4 seq)"
      using False by (rule planFrom_step)
    ultimately show ?thesis by (simp add: sheetOf_def del: upt_Suc)
  qed
qed

lemma length_planFrom: "length (planFrom b seq) = (length seq + 3) div 4"
proof (induction b seq rule: planFrom.induct)
  case (1 b seq)
  show ?case
  proof (cases "seq = []")
    case True
    then show ?thesis by (simp add: planFrom_Nil)
  next
    case False
    with 1 have "length (planFrom (Suc b) (drop 4 seq)) = (length (drop 4 seq) + 3) div 4"
      by simp
    moreover have "Suc ((n - 4 + 3) div 4) = (n + 3) div 4" if "0 < n" for n :: nat
      using that by arith
    ultimately show ?thesis using False by (simp add: planFrom_step)
  qed
qed

lemma nth_planFrom:
  "k < length (planFrom b seq) \<Longrightarrow> planFrom b seq ! k = sheetOf (b + k) (take 4 (drop (4 * k) seq))"
proof (induction k arbitrary: b seq)
  case 0
  then have "seq \<noteq> []" by (auto simp: planFrom_Nil)
  then show ?case by (simp add: planFrom_step)
next
  case (Suc k)
  then have ne: "seq \<noteq> []" by (auto simp: planFrom_Nil)
  with Suc.prems have "k < length (planFrom (Suc b) (drop 4 seq))"
    by (simp add: planFrom_step)
  then have "planFrom (Suc b) (drop 4 seq) ! k =
               sheetOf (Suc b + k) (take 4 (drop (4 * k) (drop 4 seq)))"
    by (rule Suc.IH)
  with ne show ?case by (simp add: planFrom_step add.commute)
qed

lemma slot_block: "j < 4 \<Longrightarrow> slot (take 4 (drop (4 * k) seq)) j = slot seq (4 * k + j)"
  by (auto simp: slot_def)

text \<open>
  C1. For a sequence of any length, reading the planned sheets in traversal order and
  discarding the empty quadrants gives back the sequence. The sheets are listed by
  ascending sheet index, from 0. Before discarding, the quadrants in traversal order are
  the descriptors of the sequence followed by the empty quadrants that fill the last
  sheet (none when the length is a multiple of 4).
\<close>

theorem plan_traversal_reproduces:
  "readSheets (planImposition seq) = seq
   \<and> map sheetIndex (planImposition seq) = [0..<length (planImposition seq)]
   \<and> concat (map quadrants (planImposition seq)) =
       map Some seq @ replicate ((4 - length seq mod 4) mod 4) None"
  using sheetIndex_planFrom [of 0 seq]
  by (simp add: readSheets_def planImposition_def quadrants_planFrom discardEmpty_padded)

text \<open>
  C2. There is one sheet for every started block of 4 descriptors. Sheet \<open>b\<close> has
  index \<open>b\<close> and holds the descriptors at positions \<open>4b\<close> to \<open>4b + 3\<close> of the sequence as
  front-left, front-right, back-left and back-right, empty where the sequence has run
  out. A sequence of 10 pages gives 3 sheets: the first holds pages 1 to 4, the last
  holds pages 9 and 10 on its front and has an empty back.
\<close>

theorem plan_blocks:
  "length (planImposition seq) = (length seq + 3) div 4
   \<and> (\<forall>b < length (planImposition seq).
        planImposition seq ! b =
          \<lparr>sheetIndex = b,
           front = \<lparr>left = slot seq (4 * b), right = slot seq (4 * b + 1)\<rparr>,
           back' = \<lparr>left = slot seq (4 * b + 2), right = slot seq (4 * b + 3)\<rparr>\<rparr>)
   \<and> planImposition [p1, p2, p3, p4, p5, p6, p7, p8, p9, p10] =
       [\<lparr>sheetIndex = 0, front = \<lparr>left = Some p1, right = Some p2\<rparr>,
          back' = \<lparr>left = Some p3, right = Some p4\<rparr>\<rparr>,
        \<lparr>sheetIndex = 1, front = \<lparr>left = Some p5, right = Some p6\<rparr>,
          back' = \<lparr>left = Some p7, right = Some p8\<rparr>\<rparr>,
        \<lparr>sheetIndex = 2, front = \<lparr>left = Some p9, right = Some p10\<rparr>,
          back' = \<lparr>left = None, right = None\<rparr>\<rparr>]"
proof -
  have a: "length (planImposition seq) = (length seq + 3) div 4"
    by (simp add: planImposition_def length_planFrom)
  have b: "\<forall>b < length (planImposition seq).
        planImposition seq ! b =
          \<lparr>sheetIndex = b,
           front = \<lparr>left = slot seq (4 * b), right = slot seq (4 * b + 1)\<rparr>,
           back' = \<lparr>left = slot seq (4 * b + 2), right = slot seq (4 * b + 3)\<rparr>\<rparr>"
  proof (intro allI impI)
    fix b assume "b < length (planImposition seq)"
    then have "planImposition seq ! b = sheetOf b (take 4 (drop (4 * b) seq))"
      using nth_planFrom [of b 0 seq] by (simp add: planImposition_def)
    moreover have "sheetOf b (take 4 (drop (4 * b) seq)) =
          \<lparr>sheetIndex = b,
           front = \<lparr>left = slot seq (4 * b), right = slot seq (4 * b + 1)\<rparr>,
           back' = \<lparr>left = slot seq (4 * b + 2), right = slot seq (4 * b + 3)\<rparr>\<rparr>"
      using slot_block [of 0 b seq] slot_block [of 1 b seq] slot_block [of 2 b seq]
        slot_block [of 3 b seq]
      by (simp add: sheetOf_def)
    ultimately show "planImposition seq ! b =
          \<lparr>sheetIndex = b,
           front = \<lparr>left = slot seq (4 * b), right = slot seq (4 * b + 1)\<rparr>,
           back' = \<lparr>left = slot seq (4 * b + 2), right = slot seq (4 * b + 3)\<rparr>\<rparr>"
      by simp
  qed
  have c: "planImposition [p1, p2, p3, p4, p5, p6, p7, p8, p9, p10] =
       [\<lparr>sheetIndex = 0, front = \<lparr>left = Some p1, right = Some p2\<rparr>,
          back' = \<lparr>left = Some p3, right = Some p4\<rparr>\<rparr>,
        \<lparr>sheetIndex = 1, front = \<lparr>left = Some p5, right = Some p6\<rparr>,
          back' = \<lparr>left = Some p7, right = Some p8\<rparr>\<rparr>,
        \<lparr>sheetIndex = 2, front = \<lparr>left = Some p9, right = Some p10\<rparr>,
          back' = \<lparr>left = None, right = None\<rparr>\<rparr>]"
    by (simp add: planImposition_def planFrom_step planFrom_Nil sheetOf_def slot_def)
  from a b c show ?thesis by blast
qed

theorem plan_blocks_witness:
  "(2::nat) < length (planImposition (pages (sampleDoc 10)))
   \<and> planImposition (pages (sampleDoc 10)) ! 2 =
       \<lparr>sheetIndex = 2,
        front = \<lparr>left = Some (pages (sampleDoc 10) ! 8), right = Some (pages (sampleDoc 10) ! 9)\<rparr>,
        back' = \<lparr>left = None, right = None\<rparr>\<rparr>"
proof -
  have l: "length (planImposition (pages (sampleDoc 10))) = 3"
    using plan_blocks [of "pages (sampleDoc 10)", THEN conjunct1]
    by (simp add: length_pages_sampleDoc)
  show ?thesis
    using l plan_blocks [of "pages (sampleDoc 10)", THEN conjunct2, THEN conjunct1]
    by (simp add: slot_def length_pages_sampleDoc)
qed

end
